theory Spec2Isabelle
  imports Main "HOL-Library.Char_ord" "HOL-Library.List_Lexorder"
begin

section \<open>The diagnostic tutor of \<^verbatim>\<open>src/main.py\<close>\<close>

text \<open>
  Text is a list of characters; a character stands for a code point below 256, which covers
  every character the patterns of the source mention. The hint messages of the source are
  string literals that are only ever returned, never inspected: each literal is one
  constructor of \<open>hint\<close>. Rule identifiers are compared by the log, so they stay strings.
\<close>

subsection \<open>InteractionLog (lines 32-56)\<close>

record interaction_log =
  last_rule :: "string option"
  streak :: int

text \<open>\<^verbatim>\<open>__init__\<close>: \<^verbatim>\<open>last_rule = None\<close>, \<^verbatim>\<open>streak = 0\<close>.\<close>

definition init_log :: interaction_log where
  "init_log = \<lparr>last_rule = None, streak = 0\<rparr>"

text \<open>
  \<^verbatim>\<open>record(rule_id)\<close>: the method mutates the log and returns the streak; the model returns
  the streak together with the mutated log.
\<close>

definition record_rule :: "string \<Rightarrow> interaction_log \<Rightarrow> int \<times> interaction_log" where
  "record_rule rule_id l =
     (if Some rule_id = last_rule l
      then (streak l + 1, l\<lparr>streak := streak l + 1\<rparr>)
      else (1, l\<lparr>last_rule := Some rule_id, streak := 1\<rparr>))"

definition reset :: "interaction_log \<Rightarrow> interaction_log" where
  "reset l = l\<lparr>last_rule := None, streak := 0\<rparr>"

text \<open>The invariant the specification puts on the two fields.\<close>

definition log_invariant :: "interaction_log \<Rightarrow> bool" where
  "log_invariant l =
     (case last_rule l of None \<Rightarrow> streak l = 0 | Some r \<Rightarrow> 1 \<le> streak l)"

text \<open>The log after \<open>k\<close> consecutive \<^verbatim>\<open>record(rule_id)\<close> calls.\<close>

fun record_times :: "nat \<Rightarrow> string \<Rightarrow> interaction_log \<Rightarrow> interaction_log" where
  "record_times 0 rule_id l = l"
| "record_times (Suc k) rule_id l = record_times k rule_id (snd (record_rule rule_id l))"

subsection \<open>normalize (lines 59-61)\<close>

text \<open>
  \<^verbatim>\<open>str.lower\<close> on code points below 256: the letters A-Z and the accented capitals
  U+00C0-U+00DE (U+00D7, the multiplication sign, is no letter) move up by 32; every other
  character is unchanged. Every uppercase letter below 256 has a lowercase form; above, some
  have none and \<^verbatim>\<open>str.lower\<close> leaves them as they are, which is beyond this model.
\<close>

definition is_upper :: "char \<Rightarrow> bool" where
  "is_upper c =
     (let n = (of_char c :: nat)
      in (65 \<le> n \<and> n \<le> 90) \<or> (192 \<le> n \<and> n \<le> 222 \<and> n \<noteq> 215))"

definition lower_char :: "char \<Rightarrow> char" where
  "lower_char c = (if is_upper c then char_of ((of_char c :: nat) + 32) else c)"

text \<open>\<^verbatim>\<open>expr.replace(" ", "").lower()\<close>: every U+0020 is dropped, then the text is lowercased.\<close>

definition normalize_expr :: "string \<Rightarrow> string" where
  "normalize_expr expr = map lower_char (filter (\<lambda>c. c \<noteq> CHR '' '') expr)"


subsection \<open>The regular expressions of the detectors\<close>

text \<open>
  Every pattern of the source is a sequence of items, and every quantifier in them is put on
  a single-character atom: a literal character, \<^verbatim>\<open>\d\<close> or \<^verbatim>\<open>[a-z]\<close>. An item is an atom, an
  optional atom (\<^verbatim>\<open>a?\<close>) or a capturing group of a repeated atom (\<^verbatim>\<open>(a+)\<close>). Below 256 the
  only decimal digits are 0-9.
\<close>

datatype atom = Lit char | Digit | Lower

fun atom_ok :: "atom \<Rightarrow> char \<Rightarrow> bool" where
  "atom_ok (Lit a) c = (c = a)"
| "atom_ok Digit c = (48 \<le> (of_char c :: nat) \<and> (of_char c :: nat) \<le> 57)"
| "atom_ok Lower c = (97 \<le> (of_char c :: nat) \<and> (of_char c :: nat) \<le> 122)"

datatype item = One atom | Opt atom | Group_plus atom

text \<open>
  The backtracking matcher. \<open>plus_try a k p s\<close> has taken \<open>p\<close> for the group and looks at the
  rest \<open>s\<close>: it takes one more character if it can (greedy), and gives it back when the
  continuation \<open>k\<close> fails on what is left. A successful match returns the captured groups.
\<close>

fun plus_try ::
  "atom \<Rightarrow> (string \<Rightarrow> string list option) \<Rightarrow> string \<Rightarrow> string \<Rightarrow> string list option" where
  "plus_try a k p [] = (if p = [] then None else map_option ((#) p) (k []))"
| "plus_try a k p (c # cs) =
     (let stop = (if p = [] then None else map_option ((#) p) (k (c # cs)))
      in if atom_ok a c
         then (case plus_try a k (p @ [c]) cs of Some gs \<Rightarrow> Some gs | None \<Rightarrow> stop)
         else stop)"

primrec fullmatch :: "item list \<Rightarrow> string \<Rightarrow> string list option" where
  "fullmatch [] = (\<lambda>s. if s = [] then Some [] else None)"
| "fullmatch (i # r) = (\<lambda>s.
     case i of
       One a \<Rightarrow> (case s of [] \<Rightarrow> None
                 | c # cs \<Rightarrow> if atom_ok a c then fullmatch r cs else None)
     | Opt a \<Rightarrow> (case s of [] \<Rightarrow> fullmatch r []
                 | c # cs \<Rightarrow>
                     if atom_ok a c
                     then (case fullmatch r cs of Some gs \<Rightarrow> Some gs | None \<Rightarrow> fullmatch r s)
                     else fullmatch r s)
     | Group_plus a \<Rightarrow> plus_try a (fullmatch r) [] s)"

text \<open>A run of literal characters.\<close>

definition lits :: "string \<Rightarrow> item list" where
  "lits s = map (\<lambda>c. One (Lit c)) s"

text \<open>Line 71: \<^verbatim>\<open>d/dx\(?x\^?2\)?=x\<close>.\<close>

definition power_specific_re :: "item list" where
  "power_specific_re =
     lits ''d/dx'' @ [Opt (Lit CHR ''('')] @ lits ''x'' @ [Opt (Lit CHR ''^'')] @ lits ''2''
     @ [Opt (Lit CHR '')'')] @ lits ''=x''"

text \<open>Line 79: \<^verbatim>\<open>d/dx\(?x\^?(\d+)\)?=x\^?(\d+)\<close>.\<close>

definition power_general_re :: "item list" where
  "power_general_re =
     lits ''d/dx'' @ [Opt (Lit CHR ''('')] @ lits ''x'' @ [Opt (Lit CHR ''^''), Group_plus Digit]
     @ [Opt (Lit CHR '')'')] @ lits ''=x'' @ [Opt (Lit CHR ''^''), Group_plus Digit]"

text \<open>Line 99: \<^verbatim>\<open>\(a\+b\)\^2=a\^2\+b\^2\<close>.\<close>

definition dream_literal_re :: "item list" where
  "dream_literal_re = lits ''(a+b)^2=a^2+b^2''"

text \<open>Line 108: \<^verbatim>\<open>\(([a-z]+)\+([a-z]+)\)\^2=([a-z]+)\^2\+([a-z]+)\^2\<close>.\<close>

definition dream_general_re :: "item list" where
  "dream_general_re =
     lits ''('' @ [Group_plus Lower] @ lits ''+'' @ [Group_plus Lower] @ lits '')^2=''
     @ [Group_plus Lower] @ lits ''^2+'' @ [Group_plus Lower] @ lits ''^2''"

text \<open>The value of a group of decimal digits; Python's integers are unbounded.\<close>

definition int_of_digits :: "string \<Rightarrow> int" where
  "int_of_digits ds = foldl (\<lambda>acc c. 10 * acc + (int (of_char c) - 48)) 0 ds"

text \<open>
  \<^verbatim>\<open>int(...)\<close> on a group of decimal digits. The interpreter refuses a digit string longer
  than its limit with a \<^verbatim>\<open>ValueError\<close>; the limit is 4300 characters unless it is
  reconfigured, and leading zeros count. Nothing in the source catches this exception; it is
  the only one that can leave a detector.
\<close>

datatype error = ValueError

definition int_max_str_digits :: nat where
  "int_max_str_digits = 4300"

definition int_py :: "string \<Rightarrow> error + int" where
  "int_py ds = (if int_max_str_digits < length ds then Inl ValueError else Inr (int_of_digits ds))"

subsection \<open>Detection results\<close>

text \<open>
  The message literals of the source, by line:
  74 and 75 (power rule, specific pattern), 86 and 87 (power rule, general pattern),
  102 and 103 (binomial, literal pattern), 117 and 118 (binomial, general pattern),
  138 and 139 (binomial, symbolic fallback), 174 (the two sides differ), 179 (neutral).
\<close>

datatype hint =
    Power_specific_base | Power_specific_escalated
  | Power_general_base | Power_general_escalated
  | Dream_literal_base | Dream_literal_escalated
  | Dream_general_base | Dream_general_escalated
  | Dream_symbolic_base | Dream_symbolic_escalated
  | Sides_not_equal
  | Neutral

text \<open>A detection is the triple (rule id, base hint, escalated hint).\<close>

type_synonym detection = "string \<times> hint \<times> hint"

subsection \<open>hint_power_rule (lines 64-89)\<close>

text \<open>
  A detector returns a detection or \<^verbatim>\<open>None\<close>, or raises: \<open>Inl\<close> is the exception that
  leaves it.
\<close>

definition hint_power_rule :: "string \<Rightarrow> error + detection option" where
  "hint_power_rule expr =
     (let compact = normalize_expr expr
      in if fullmatch power_specific_re compact \<noteq> None
         then Inr (Some (''power_rule_missing_coefficient'',
                         Power_specific_base, Power_specific_escalated))
         else (case fullmatch power_general_re compact of
                 Some [g1, g2] \<Rightarrow>
                   (case int_py g1 of
                      Inl e \<Rightarrow> Inl e
                    | Inr n_left \<Rightarrow>
                        (case int_py g2 of
                           Inl e \<Rightarrow> Inl e
                         | Inr n_right \<Rightarrow>
                             if n_left - 1 = n_right \<and> n_left \<noteq> 1
                             then Inr (Some (''power_rule_missing_coefficient'',
                                             Power_general_base, Power_general_escalated))
                             else Inr None))
               | _ \<Rightarrow> Inr None))"

subsection \<open>The optional symbolic algebra library\<close>

text \<open>
  The library (sympy) is no part of the repository and may be absent at run time
  (\<^verbatim>\<open>SYMPY_AVAILABLE\<close>), so it is a parameter: \<open>None\<close> when it is absent. The source hands it
  the two sides of the equation inside a \<^verbatim>\<open>try\<close> whose handler swallows every exception,
  twice:
  \<^item> \<open>cross_term left right\<close> is the outcome of lines 125-140: \<open>Some True\<close> when the loop
    reaches the \<^verbatim>\<open>return\<close> of line 136 (the expanded difference of the sides is a
    polynomial in two or more symbols with a term of coefficient 2 in two or more
    generators), \<open>Some False\<close> when the block ends without it, \<open>None\<close> when it raises;
  \<^item> \<open>sides_differ left right\<close> is the outcome of lines 171-173: the value of
    \<^verbatim>\<open>not sp.Eq(left, right)\<close> on the simplified sides, \<open>None\<close> when that raises.
\<close>

record checker =
  cross_term :: "string \<Rightarrow> string \<Rightarrow> bool option"
  sides_differ :: "string \<Rightarrow> string \<Rightarrow> bool option"

text \<open>\<^verbatim>\<open>expr.split("=", 1)\<close> on a text that contains \<^verbatim>\<open>=\<close>: the parts around its first \<^verbatim>\<open>=\<close>.\<close>

definition split_eq :: "string \<Rightarrow> string \<times> string" where
  "split_eq expr =
     (takeWhile (\<lambda>c. c \<noteq> CHR ''='') expr, tl (dropWhile (\<lambda>c. c \<noteq> CHR ''='') expr))"

subsection \<open>hint_freshman_dream (lines 92-143)\<close>

definition hint_freshman_dream :: "checker option \<Rightarrow> string \<Rightarrow> detection option" where
  "hint_freshman_dream sp expr =
     (let compact = normalize_expr expr
      in if fullmatch dream_literal_re compact \<noteq> None
         then Some (''freshman_dream'', Dream_literal_base, Dream_literal_escalated)
         else if (case fullmatch dream_general_re compact of
                    Some [left_a, left_b, right_a, right_b] \<Rightarrow>
                      sort [left_a, left_b] = sort [right_a, right_b]
                  | _ \<Rightarrow> False)
         then Some (''freshman_dream'', Dream_general_base, Dream_general_escalated)
         else (case sp of
                 None \<Rightarrow> None
               | Some lib \<Rightarrow>
                   if CHR ''='' \<in> set expr
                   then (let (left_raw, right_raw) = split_eq expr
                         in if cross_term lib left_raw right_raw = Some True
                            then Some (''freshman_dream'',
                                       Dream_symbolic_base, Dream_symbolic_escalated)
                            else None)
                   else None))"

subsection \<open>analyze_expression (lines 146-179)\<close>

text \<open>
  The detectors in their fixed order (line 149). The second one catches what its library
  calls raise and has no other call that can raise, so it always returns.
\<close>

definition PEDAGOGICAL_GRAPH_NODES ::
  "checker option \<Rightarrow> (string \<Rightarrow> error + detection option) list" where
  "PEDAGOGICAL_GRAPH_NODES sp = [hint_power_rule, \<lambda>expr. Inr (hint_freshman_dream sp expr)]"

text \<open>
  The loop of lines 157-159 up to its first result: the first detector that returns one. An
  exception that leaves a detector leaves the loop.
\<close>

fun first_detection ::
  "(string \<Rightarrow> error + detection option) list \<Rightarrow> string \<Rightarrow> error + detection option" where
  "first_detection [] expr = Inr None"
| "first_detection (detector # rest) expr =
     (case detector expr of
        Inl e \<Rightarrow> Inl e
      | Inr (Some result) \<Rightarrow> Inr (Some result)
      | Inr None \<Rightarrow> first_detection rest expr)"

text \<open>
  The state a call works on is the log it is handed. To count the calls of the two mutating
  methods, the model keeps beside the log the list of the method calls made on it so far.
  Whatever else the program holds is the extension of the record, which no function below
  reads or writes.
\<close>

datatype log_call = Call_record string | Call_reset

record session =
  log :: interaction_log
  calls :: "log_call list"

definition call_record :: "string \<Rightarrow> 'a session_scheme \<Rightarrow> int \<times> 'a session_scheme" where
  "call_record rule_id s =
     (let (n, l) = record_rule rule_id (log s)
      in (n, s\<lparr>log := l, calls := calls s @ [Call_record rule_id]\<rparr>))"

definition call_reset :: "'a session_scheme \<Rightarrow> 'a session_scheme" where
  "call_reset s = s\<lparr>log := reset (log s), calls := calls s @ [Call_reset]\<rparr>"

text \<open>
  A call ends with a hint (\<open>Inr\<close>) or with the exception that leaves it (\<open>Inl\<close>); either way
  the caller holds the log as the call left it, so the model returns the state beside the
  outcome.
\<close>

definition analyze_expression ::
  "checker option \<Rightarrow> string \<Rightarrow> 'a session_scheme \<Rightarrow> (error + hint) \<times> 'a session_scheme" where
  "analyze_expression sp expr s =
     (case first_detection (PEDAGOGICAL_GRAPH_NODES sp) expr of
        Inl e \<Rightarrow> (Inl e, s)
      | Inr (Some (rule_id, base_hint, escalated_hint)) \<Rightarrow>
          (let (n, s1) = call_record rule_id s
           in (Inr (if 2 \<le> n then escalated_hint else base_hint), s1))
      | Inr None \<Rightarrow>
          (let s1 = call_reset s
           in case sp of
                None \<Rightarrow> (Inr Neutral, s1)
              | Some lib \<Rightarrow>
                  if CHR ''='' \<in> set expr
                  then (let (left_raw, right_raw) = split_eq expr
                        in if sides_differ lib left_raw right_raw = Some True
                           then (Inr Sides_not_equal, s1)
                           else (Inr Neutral, s1))
                  else (Inr Neutral, s1)))"

subsection \<open>The shapes of text the specification names\<close>

text \<open>An optional character, and the two kinds of captured group.\<close>

definition opt :: "bool \<Rightarrow> char \<Rightarrow> string" where
  "opt b c = (if b then [c] else [])"

definition number :: "string \<Rightarrow> bool" where
  "number N = (N \<noteq> [] \<and> list_all (atom_ok Digit) N)"

definition lower_ident :: "string \<Rightarrow> bool" where
  "lower_ident U = (U \<noteq> [] \<and> list_all (atom_ok Lower) U)"

text \<open>\<^verbatim>\<open>d/dx(x^2)=x\<close> with each parenthesis and the caret present or not.\<close>

definition specific_shape :: "bool \<Rightarrow> bool \<Rightarrow> bool \<Rightarrow> string" where
  "specific_shape lp c rp =
     ''d/dx'' @ opt lp CHR ''('' @ ''x'' @ opt c CHR ''^'' @ ''2'' @ opt rp CHR '')'' @ ''=x''"

text \<open>\<^verbatim>\<open>d/dx(x^N)=x^M\<close> with each parenthesis and each caret present or not.\<close>

definition power_shape :: "bool \<Rightarrow> bool \<Rightarrow> string \<Rightarrow> bool \<Rightarrow> bool \<Rightarrow> string \<Rightarrow> string" where
  "power_shape lp c1 N rp c2 M =
     ''d/dx'' @ opt lp CHR ''('' @ ''x'' @ opt c1 CHR ''^'' @ N @ opt rp CHR '')'' @ ''=x''
     @ opt c2 CHR ''^'' @ M"

text \<open>\<^verbatim>\<open>(U+V)^2=P^2+Q^2\<close>.\<close>

definition dream_shape :: "string \<Rightarrow> string \<Rightarrow> string \<Rightarrow> string \<Rightarrow> string" where
  "dream_shape U V P Q = ''('' @ U @ ''+'' @ V @ '')^2='' @ P @ ''^2+'' @ Q @ ''^2''"


subsection \<open>Two instances of the library\<close>

text \<open>A library on which every call raises: each \<^verbatim>\<open>try\<close> block ends in its handler.\<close>

definition raising_lib :: checker where
  "raising_lib = \<lparr>cross_term = (\<lambda>left right. None), sides_differ = (\<lambda>left right. None)\<rparr>"

text \<open>
  What sympy answers on the two sides of \<^verbatim>\<open>(a+c)^2 = a^2+b^2\<close>, and on them only.
  \<^verbatim>\<open>sympify\<close> reads \<^verbatim>\<open>^\<close> as a power, the left side expands to \<open>a^2 + 2ac + c^2\<close>, the
  difference of the sides to \<open>2ac - b^2 + c^2\<close>: a polynomial in three symbols whose term
  \<open>2ac\<close> has the coefficient 2 and the two generators \<open>a\<close> and \<open>c\<close>, so the loop returns at
  line 136. On every other pair of sides this instance raises.
\<close>

definition expanding_lib :: checker where
  "expanding_lib =
     \<lparr>cross_term = (\<lambda>left right. if left = ''(a+c)^2 '' \<and> right = '' a^2+b^2'' then Some True else None),
      sides_differ = (\<lambda>left right. None)\<rparr>"

section \<open>Properties\<close>

subsection \<open>What a successful match says about the text\<close>

lemma plus_try_sound:
  "plus_try a k p s = Some gs \<Longrightarrow>
   \<exists>q rest gs'. s = q @ rest \<and> list_all (atom_ok a) q \<and> p @ q \<noteq> [] \<and> gs = (p @ q) # gs'
      \<and> k rest = Some gs'"
proof (induction s arbitrary: p)
  case Nil
  then show ?case by (auto split: if_splits)
next
  case (Cons c cs)
  show ?case
  proof (cases "atom_ok a c \<and> plus_try a k (p @ [c]) cs \<noteq> None")
    case True
    then obtain gs0 where g0: "plus_try a k (p @ [c]) cs = Some gs0" by auto
    with Cons.prems True have "gs0 = gs" by (simp add: Let_def)
    with g0 Cons.IH[of "p @ [c]"] obtain q rest gs' where
      "cs = q @ rest" "list_all (atom_ok a) q" "(p @ [c]) @ q \<noteq> []" "gs = ((p @ [c]) @ q) # gs'"
      "k rest = Some gs'" by blast
    with True show ?thesis
      by (intro exI[of _ "c # q"] exI[of _ rest] exI[of _ gs']) simp
  next
    case False
    with Cons.prems have "p \<noteq> [] \<and> map_option ((#) p) (k (c # cs)) = Some gs"
      by (auto simp: Let_def split: if_splits option.splits)
    then show ?thesis
      by (intro exI[of _ "[]"] exI[of _ "c # cs"] exI[of _ "the (k (c # cs))"]) auto
  qed
qed

lemma fullmatch_NilE:
  assumes "fullmatch [] s = Some gs"
  obtains "s = []" "gs = []"
  using assms by (auto split: if_splits)

lemma fullmatch_LitE:
  assumes "fullmatch (One (Lit c) # r) s = Some gs"
  obtains s' where "s = c # s'" "fullmatch r s' = Some gs"
  using assms by (cases s) (auto split: if_splits)

lemma fullmatch_OptE:
  assumes "fullmatch (Opt (Lit c) # r) s = Some gs"
  obtains ov s' where "s = ov @ s'" "ov = [] \<or> ov = [c]" "fullmatch r s' = Some gs"
proof (cases s)
  case Nil
  with assms that[of "[]" s] show ?thesis by simp
next
  case (Cons d ds)
  show ?thesis
  proof (cases "fullmatch r s = Some gs")
    case True
    with that[of "[]" s] show ?thesis by simp
  next
    case False
    with assms Cons have "d = c \<and> fullmatch r ds = Some gs"
      by (auto split: if_splits option.splits)
    with that[of "[c]" ds] Cons show ?thesis by simp
  qed
qed

lemma fullmatch_PlusE:
  assumes "fullmatch (Group_plus a # r) s = Some gs"
  obtains q s' gs' where "s = q @ s'" "q \<noteq> []" "list_all (atom_ok a) q" "gs = q # gs'"
    "fullmatch r s' = Some gs'"
proof -
  from assms have "plus_try a (fullmatch r) [] s = Some gs" by simp
  from plus_try_sound[OF this] that show ?thesis by auto
qed

lemma power_general_shape:
  assumes "fullmatch power_general_re s = Some gs"
  shows "\<exists>lp c1 N rp c2 M. s = ''d/dx'' @ lp @ ''x'' @ c1 @ N @ rp @ ''=x'' @ c2 @ M
     \<and> (lp = [] \<or> lp = ''('') \<and> (c1 = [] \<or> c1 = ''^'') \<and> (rp = [] \<or> rp = '')'')
     \<and> (c2 = [] \<or> c2 = ''^'') \<and> N \<noteq> [] \<and> M \<noteq> [] \<and> list_all (atom_ok Digit) N
     \<and> list_all (atom_ok Digit) M \<and> gs = [N, M]"
  using assms unfolding power_general_re_def lits_def
  apply (simp del: fullmatch.simps)
  apply (elim fullmatch_LitE fullmatch_OptE fullmatch_PlusE fullmatch_NilE)
  apply (simp del: fullmatch.simps)
  apply blast
  done

lemma dream_general_shape:
  assumes "fullmatch dream_general_re s = Some gs"
  shows "\<exists>U V P Q. s = ''('' @ U @ ''+'' @ V @ '')^2='' @ P @ ''^2+'' @ Q @ ''^2''
     \<and> U \<noteq> [] \<and> V \<noteq> [] \<and> P \<noteq> [] \<and> Q \<noteq> []
     \<and> list_all (atom_ok Lower) U \<and> list_all (atom_ok Lower) V
     \<and> list_all (atom_ok Lower) P \<and> list_all (atom_ok Lower) Q \<and> gs = [U, V, P, Q]"
  using assms unfolding dream_general_re_def lits_def
  apply (simp del: fullmatch.simps)
  apply (elim fullmatch_LitE fullmatch_OptE fullmatch_PlusE fullmatch_NilE)
  apply (simp del: fullmatch.simps)
  done

lemma plus_try_complete:
  assumes "list_all (atom_ok a) q" and "rest = [] \<or> \<not> atom_ok a (hd rest)"
    and "p @ q \<noteq> []" and "k rest = Some g"
  shows "plus_try a k p (q @ rest) = Some ((p @ q) # g)"
  using assms
proof (induction q arbitrary: p)
  case Nil
  then show ?case by (cases rest) (auto simp: Let_def)
next
  case (Cons c q)
  from Cons.prems have "plus_try a k (p @ [c]) (q @ rest) = Some (((p @ [c]) @ q) # g)"
    by (intro Cons.IH) auto
  with Cons.prems show ?case by (simp add: Let_def)
qed

lemma fullmatch_PlusI:
  assumes "fullmatch r rest = Some g" and "q \<noteq> []" and "list_all (atom_ok a) q"
    and "rest = [] \<or> \<not> atom_ok a (hd rest)"
  shows "fullmatch (Group_plus a # r) (q @ rest) = Some (q # g)"
  using plus_try_complete[of a q rest "[]" "fullmatch r" g] assms by simp

lemma fullmatch_LitI:
  "fullmatch r s = Some g \<Longrightarrow> fullmatch (One (Lit c) # r) (c # s) = Some g"
  by simp

lemma fullmatch_OptI:
  assumes "fullmatch r s = Some g" and "ov = [c] \<or> ov = [] \<and> (s = [] \<or> hd s \<noteq> c)"
  shows "fullmatch (Opt (Lit c) # r) (ov @ s) = Some g"
  using assms by (cases s) auto

lemma digit_not_lit:
  "list_all (atom_ok Digit) N \<Longrightarrow> N \<noteq> [] \<Longrightarrow> hd (N @ t) \<noteq> CHR ''^''"
  by (cases N) auto

lemma power_general_complete:
  assumes opts: "lp = [] \<or> lp = ''(''" "c1 = [] \<or> c1 = ''^''" "rp = [] \<or> rp = '')''"
      "c2 = [] \<or> c2 = ''^''"
    and N: "N \<noteq> []" "list_all (atom_ok Digit) N"
    and M: "M \<noteq> []" "list_all (atom_ok Digit) M"
  shows "fullmatch power_general_re (''d/dx'' @ lp @ ''x'' @ c1 @ N @ rp @ ''=x'' @ c2 @ M)
         = Some [N, M]"
proof -
  have 1: "fullmatch [Group_plus Digit] (M @ []) = Some [M]"
    using M by (intro fullmatch_PlusI) auto
  have 2: "fullmatch [Opt (Lit CHR ''^''), Group_plus Digit] (c2 @ M) = Some [M]"
    using 1 opts(4) digit_not_lit[OF M(2) M(1), of "[]"] by (intro fullmatch_OptI) auto
  have 3: "fullmatch (lits ''=x'' @ [Opt (Lit CHR ''^''), Group_plus Digit]) (''=x'' @ c2 @ M)
           = Some [M]"
    using 2 by (simp add: lits_def)
  have 4: "fullmatch (Opt (Lit CHR '')'') # lits ''=x'' @ [Opt (Lit CHR ''^''), Group_plus Digit])
             (rp @ ''=x'' @ c2 @ M) = Some [M]"
    using 3 opts(3) by (intro fullmatch_OptI) auto
  have 5: "fullmatch (Group_plus Digit # Opt (Lit CHR '')'') # lits ''=x''
              @ [Opt (Lit CHR ''^''), Group_plus Digit])
             (N @ rp @ ''=x'' @ c2 @ M) = Some [N, M]"
    using 4 N opts(3) by (intro fullmatch_PlusI) auto
  have 6: "fullmatch (Opt (Lit CHR ''^'') # Group_plus Digit # Opt (Lit CHR '')'') # lits ''=x''
              @ [Opt (Lit CHR ''^''), Group_plus Digit])
             (c1 @ N @ rp @ ''=x'' @ c2 @ M) = Some [N, M]"
    using 5 opts(2) digit_not_lit[OF N(2) N(1)] by (intro fullmatch_OptI) auto
  have 7: "fullmatch (Opt (Lit CHR ''('') # lits ''x'' @ Opt (Lit CHR ''^'') # Group_plus Digit #
              Opt (Lit CHR '')'') # lits ''=x'' @ [Opt (Lit CHR ''^''), Group_plus Digit])
             (lp @ ''x'' @ c1 @ N @ rp @ ''=x'' @ c2 @ M) = Some [N, M]"
    using 6 opts(1) by (intro fullmatch_OptI) (auto simp: lits_def)
  then show ?thesis by (simp add: power_general_re_def lits_def)
qed

lemma dream_general_complete:
  assumes U: "U \<noteq> []" "list_all (atom_ok Lower) U"
    and V: "V \<noteq> []" "list_all (atom_ok Lower) V"
    and P: "P \<noteq> []" "list_all (atom_ok Lower) P"
    and Q: "Q \<noteq> []" "list_all (atom_ok Lower) Q"
  shows "fullmatch dream_general_re
           (''('' @ U @ ''+'' @ V @ '')^2='' @ P @ ''^2+'' @ Q @ ''^2'') = Some [U, V, P, Q]"
proof -
  have 1: "fullmatch (lits ''^2'') ''^2'' = Some []"
    by (simp add: lits_def)
  have 2: "fullmatch (Group_plus Lower # lits ''^2'') (Q @ ''^2'') = Some [Q]"
    using 1 Q by (intro fullmatch_PlusI) auto
  have 3: "fullmatch (lits ''^2+'' @ Group_plus Lower # lits ''^2'') (''^2+'' @ Q @ ''^2'') = Some [Q]"
    using 2 by (simp add: lits_def)
  have 4: "fullmatch (Group_plus Lower # lits ''^2+'' @ Group_plus Lower # lits ''^2'')
             (P @ ''^2+'' @ Q @ ''^2'') = Some [P, Q]"
    using 3 P by (intro fullmatch_PlusI) auto
  have 5: "fullmatch (lits '')^2='' @ Group_plus Lower # lits ''^2+'' @ Group_plus Lower # lits ''^2'')
             ('')^2='' @ P @ ''^2+'' @ Q @ ''^2'') = Some [P, Q]"
    using 4 by (simp add: lits_def)
  have 6: "fullmatch (Group_plus Lower # lits '')^2='' @ Group_plus Lower # lits ''^2+''
              @ Group_plus Lower # lits ''^2'')
             (V @ '')^2='' @ P @ ''^2+'' @ Q @ ''^2'') = Some [V, P, Q]"
    using 5 V by (intro fullmatch_PlusI) auto
  have 7: "fullmatch (lits ''+'' @ Group_plus Lower # lits '')^2='' @ Group_plus Lower # lits ''^2+''
              @ Group_plus Lower # lits ''^2'')
             (''+'' @ V @ '')^2='' @ P @ ''^2+'' @ Q @ ''^2'') = Some [V, P, Q]"
    using 6 by (simp add: lits_def)
  have 8: "fullmatch (Group_plus Lower # lits ''+'' @ Group_plus Lower # lits '')^2=''
              @ Group_plus Lower # lits ''^2+'' @ Group_plus Lower # lits ''^2'')
             (U @ ''+'' @ V @ '')^2='' @ P @ ''^2+'' @ Q @ ''^2'') = Some [U, V, P, Q]"
    using 7 U by (intro fullmatch_PlusI) auto
  then show ?thesis by (simp add: dream_general_re_def lits_def)
qed

lemma fullmatch_lits: "fullmatch (lits t) s = (if s = t then Some [] else None)"
  by (induction t arbitrary: s) (auto simp: lits_def split: list.splits)

lemma opt_cases: "opt b c = [] \<or> opt b c = [c]"
  by (simp add: opt_def)

lemma power_general_sound:
  assumes "fullmatch power_general_re s = Some gs"
  shows "\<exists>lp c1 N rp c2 M. s = power_shape lp c1 N rp c2 M \<and> number N \<and> number M \<and> gs = [N, M]"
proof -
  from power_general_shape[OF assms] obtain lp c1 N rp c2 M where
    s: "s = ''d/dx'' @ lp @ ''x'' @ c1 @ N @ rp @ ''=x'' @ c2 @ M"
    and o: "lp = [] \<or> lp = ''(''" "c1 = [] \<or> c1 = ''^''" "rp = [] \<or> rp = '')''" "c2 = [] \<or> c2 = ''^''"
    and n: "N \<noteq> []" "M \<noteq> []" "list_all (atom_ok Digit) N" "list_all (atom_ok Digit) M"
    and g: "gs = [N, M]"
    by blast
  have "lp = opt (lp \<noteq> []) CHR ''(''" "c1 = opt (c1 \<noteq> []) CHR ''^''"
    "rp = opt (rp \<noteq> []) CHR '')''" "c2 = opt (c2 \<noteq> []) CHR ''^''"
    using o by (auto simp: opt_def)
  then have "s = power_shape (lp \<noteq> []) (c1 \<noteq> []) N (rp \<noteq> []) (c2 \<noteq> []) M"
    using s by (simp add: power_shape_def)
  with n g show ?thesis unfolding number_def by blast
qed

lemma power_general_on_shape:
  assumes "number N" and "number M"
  shows "fullmatch power_general_re (power_shape lp c1 N rp c2 M) = Some [N, M]"
  unfolding power_shape_def
  using assms opt_cases by (intro power_general_complete) (auto simp: number_def)

lemma power_specific_sound:
  assumes "fullmatch power_specific_re s = Some gs"
  shows "\<exists>lp c rp. s = specific_shape lp c rp"
proof -
  from assms have "\<exists>lp c rp. s = ''d/dx'' @ lp @ ''x'' @ c @ ''2'' @ rp @ ''=x''
     \<and> (lp = [] \<or> lp = ''('') \<and> (c = [] \<or> c = ''^'') \<and> (rp = [] \<or> rp = '')'')"
    unfolding power_specific_re_def lits_def
    apply (simp del: fullmatch.simps)
    apply (elim fullmatch_LitE fullmatch_OptE fullmatch_NilE)
    apply (simp del: fullmatch.simps)
    apply blast
    done
  then obtain lp c rp where s: "s = ''d/dx'' @ lp @ ''x'' @ c @ ''2'' @ rp @ ''=x''"
    and o: "lp = [] \<or> lp = ''(''" "c = [] \<or> c = ''^''" "rp = [] \<or> rp = '')''"
    by blast
  have "lp = opt (lp \<noteq> []) CHR ''(''" "c = opt (c \<noteq> []) CHR ''^''" "rp = opt (rp \<noteq> []) CHR '')''"
    using o by (auto simp: opt_def)
  then have "s = specific_shape (lp \<noteq> []) (c \<noteq> []) (rp \<noteq> [])"
    using s by (simp add: specific_shape_def)
  then show ?thesis by blast
qed

lemma power_specific_on_shape:
  "fullmatch power_specific_re (specific_shape lp c rp) = Some []"
  by (cases lp; cases c; cases rp) (simp_all add: specific_shape_def opt_def power_specific_re_def lits_def)

lemma specific_not_general:
  assumes "number M"
  shows "fullmatch power_specific_re (power_shape lp c1 N rp c2 M) = None"
proof (rule ccontr)
  assume "fullmatch power_specific_re (power_shape lp c1 N rp c2 M) \<noteq> None"
  then obtain a b c where eq: "power_shape lp c1 N rp c2 M = specific_shape a b c"
    using power_specific_sound by blast
  from assms have "last (power_shape lp c1 N rp c2 M) = last M" and "atom_ok Digit (last M)"
    by (auto simp: power_shape_def number_def list_all_iff)
  moreover have "last (specific_shape a b c) = CHR ''x''"
    by (simp add: specific_shape_def)
  ultimately have "atom_ok Digit CHR ''x''" using eq by simp
  then show False by simp
qed

lemma dream_general_sound:
  assumes "fullmatch dream_general_re s = Some gs"
  shows "\<exists>U V P Q. s = dream_shape U V P Q \<and> lower_ident U \<and> lower_ident V \<and> lower_ident P
     \<and> lower_ident Q \<and> gs = [U, V, P, Q]"
  using dream_general_shape[OF assms] unfolding dream_shape_def lower_ident_def by blast

lemma dream_general_on_shape:
  assumes "lower_ident U" "lower_ident V" "lower_ident P" "lower_ident Q"
  shows "fullmatch dream_general_re (dream_shape U V P Q) = Some [U, V, P, Q]"
  unfolding dream_shape_def using assms by (intro dream_general_complete) (auto simp: lower_ident_def)

lemma sort_pair:
  fixes a b c d :: "'a::linorder"
  shows "sort [a, b] = sort [c, d] \<longleftrightarrow> (a = c \<and> b = d) \<or> (a = d \<and> b = c)"
  by auto

subsection \<open>The claims\<close>

lemma of_char_lt_256: "(of_char c :: nat) < 256"
proof -
  have "(of_char c :: nat) mod 256 = of_char c" by simp
  then show ?thesis by (metis mod_less_divisor zero_less_numeral)
qed

lemma lower_char_code:
  "(of_char (lower_char c) :: nat) = (if is_upper c then of_char c + 32 else of_char c)"
  using of_char_lt_256[of c] by (auto simp: lower_char_def is_upper_def Let_def)

lemma lower_char_not_upper: "\<not> is_upper (lower_char c)"
  using of_char_lt_256[of c]
  by (auto simp: is_upper_def lower_char_def Let_def)

lemma lower_char_not_space: "c \<noteq> CHR '' '' \<Longrightarrow> lower_char c \<noteq> CHR '' ''"
proof
  assume ne: "c \<noteq> CHR '' ''" and eq: "lower_char c = CHR '' ''"
  then have up: "is_upper c" by (auto simp: lower_char_def split: if_splits)
  from eq have "(of_char (lower_char c) :: nat) = 32" by simp
  with up show False by (auto simp: lower_char_code is_upper_def Let_def)
qed

lemma lower_char_idem: "lower_char (lower_char c) = lower_char c"
  using lower_char_not_upper[of c] by (simp add: lower_char_def[of "lower_char c"])



text \<open>
  Claim C9: normalize is idempotent; normalizing a normalized text changes nothing.
\<close>

theorem normalize_idempotent: "normalize_expr (normalize_expr s) = normalize_expr s"
proof -
  have "filter (\<lambda>c. c \<noteq> CHR '' '') (normalize_expr s) = normalize_expr s"
    unfolding normalize_expr_def
    by (rule filter_True) (auto simp: lower_char_not_space)
  then have "normalize_expr (normalize_expr s) = map lower_char (normalize_expr s)"
    by (simp add: normalize_expr_def[of "normalize_expr s"])
  also have "\<dots> = normalize_expr s"
    by (simp add: normalize_expr_def lower_char_idem)
  finally show ?thesis .
qed




text \<open>
  Claim C2: in every state of the log, \<^verbatim>\<open>record(r)\<close> moves from \<open>active(r, n)\<close> to
  \<open>active(r, n + 1)\<close> and from any other state to \<open>active(r, 1)\<close>, and returns the streak of
  the state it reaches; so over consecutive calls with one rule id each call returns one more
  than the call before it.
\<close>

theorem record_rule_transition:
  "record_rule r l =
     (if last_rule l = Some r
      then (streak l + 1, \<lparr>last_rule = Some r, streak = streak l + 1\<rparr>)
      else (1, \<lparr>last_rule = Some r, streak = 1\<rparr>))
   \<and> fst (record_rule r l) = streak (snd (record_rule r l))
   \<and> fst (record_rule r (record_times (Suc k) r l)) = fst (record_rule r (record_times k r l)) + 1"
proof -
  have step: "fst (record_rule r (snd (record_rule r m))) = fst (record_rule r m) + 1" for m
    by (simp add: record_rule_def)
  have comm: "record_times k r (snd (record_rule r m)) = snd (record_rule r (record_times k r m))" for m
    by (induction k arbitrary: m) simp_all
  have "fst (record_rule r (record_times (Suc k) r l)) = fst (record_rule r (record_times k r l)) + 1"
    by (simp add: comm step)
  moreover have "record_rule r l =
     (if last_rule l = Some r
      then (streak l + 1, \<lparr>last_rule = Some r, streak = streak l + 1\<rparr>)
      else (1, \<lparr>last_rule = Some r, streak = 1\<rparr>))"
    by (cases l) (auto simp: record_rule_def)
  moreover have "fst (record_rule r l) = streak (snd (record_rule r l))"
    by (simp add: record_rule_def)
  ultimately show ?thesis by blast
qed

text \<open>
  Claim C3: the invariant of the log holds in the initial state, holds after \<^verbatim>\<open>reset()\<close>
  whatever the state was, and is kept by \<^verbatim>\<open>record(rule_id)\<close> for every rule id.
\<close>

theorem log_invariant_preserved:
  "log_invariant init_log \<and> log_invariant (reset l)
   \<and> (log_invariant l \<longrightarrow> log_invariant (snd (record_rule r l)))"
  by (auto simp: log_invariant_def init_log_def reset_def record_rule_def split: option.splits)

text \<open>Claim C3 at the initial log and the rule id \<^verbatim>\<open>freshman_dream\<close>.\<close>

theorem log_invariant_preserved_witness:
  "log_invariant init_log \<and> log_invariant (snd (record_rule ''freshman_dream'' init_log))
   \<and> snd (record_rule ''freshman_dream'' init_log) = \<lparr>last_rule = Some ''freshman_dream'', streak = 1\<rparr>"
proof -
  have h: "log_invariant init_log" by (simp add: log_invariant_def init_log_def)
  with log_invariant_preserved[of init_log "''freshman_dream''"]
  have "log_invariant (snd (record_rule ''freshman_dream'' init_log))" by blast
  with h show ?thesis by (simp add: record_rule_def init_log_def)
qed

lemma hint_power_rule_distinct:
  "hint_power_rule expr = Inr (Some (r, b, e)) \<Longrightarrow> b \<noteq> e"
  by (auto simp: hint_power_rule_def Let_def split: if_splits option.splits list.splits sum.splits)

lemma hint_freshman_dream_distinct:
  "hint_freshman_dream sp expr = Some (r, b, e) \<Longrightarrow> b \<noteq> e"
  by (auto simp: hint_freshman_dream_def Let_def split: if_splits option.splits prod.splits)

lemma first_detection_distinct:
  "first_detection (PEDAGOGICAL_GRAPH_NODES sp) expr = Inr (Some (r, b, e)) \<Longrightarrow> b \<noteq> e"
  by (auto simp: PEDAGOGICAL_GRAPH_NODES_def split: option.splits sum.splits
      dest: hint_power_rule_distinct hint_freshman_dream_distinct)

text \<open>
  Claim C1: when a detector matches, analyze_expression returns the escalated hint exactly
  when the streak that \<^verbatim>\<open>log.record\<close> returns for this call is at least 2, and the base hint
  exactly when it is not.
\<close>

theorem escalation_threshold:
  "first_detection (PEDAGOGICAL_GRAPH_NODES sp) expr
     = Inr (Some (rule_id, base_hint, escalated_hint)) \<longrightarrow>
     (fst (analyze_expression sp expr s) = Inr escalated_hint \<longleftrightarrow> 2 \<le> fst (call_record rule_id s))
   \<and> (fst (analyze_expression sp expr s) = Inr base_hint \<longleftrightarrow> \<not> 2 \<le> fst (call_record rule_id s))
   \<and> snd (analyze_expression sp expr s) = snd (call_record rule_id s)"
proof
  assume d: "first_detection (PEDAGOGICAL_GRAPH_NODES sp) expr
     = Inr (Some (rule_id, base_hint, escalated_hint))"
  then have ne: "base_hint \<noteq> escalated_hint" by (rule first_detection_distinct)
  from d have "analyze_expression sp expr s =
      (Inr (if 2 \<le> fst (call_record rule_id s) then escalated_hint else base_hint),
       snd (call_record rule_id s))"
    by (simp add: analyze_expression_def split: prod.splits)
  with ne show "(fst (analyze_expression sp expr s) = Inr escalated_hint
        \<longleftrightarrow> 2 \<le> fst (call_record rule_id s))
   \<and> (fst (analyze_expression sp expr s) = Inr base_hint \<longleftrightarrow> \<not> 2 \<le> fst (call_record rule_id s))
   \<and> snd (analyze_expression sp expr s) = snd (call_record rule_id s)"
    by auto
qed

lemma hint_power_rule_example: "hint_power_rule ''d/dx(x^2)=x'' =
   Inr (Some (''power_rule_missing_coefficient'', Power_specific_base, Power_specific_escalated))"
  by code_simp

text \<open>
  Claim C1 on \<^verbatim>\<open>d/dx(x^2)=x\<close>, submitted twice to a fresh log: the base hint with streak 1,
  then the escalated hint with streak 2.
\<close>

theorem escalation_threshold_witness:
  "first_detection (PEDAGOGICAL_GRAPH_NODES None) ''d/dx(x^2)=x'' =
     Inr (Some (''power_rule_missing_coefficient'', Power_specific_base, Power_specific_escalated))
   \<and> fst (call_record ''power_rule_missing_coefficient'' \<lparr>log = init_log, calls = []\<rparr>) = 1
   \<and> fst (analyze_expression None ''d/dx(x^2)=x'' \<lparr>log = init_log, calls = []\<rparr>)
       = Inr Power_specific_base
   \<and> fst (call_record ''power_rule_missing_coefficient''
        (snd (analyze_expression None ''d/dx(x^2)=x'' \<lparr>log = init_log, calls = []\<rparr>))) = 2
   \<and> fst (analyze_expression None ''d/dx(x^2)=x''
        (snd (analyze_expression None ''d/dx(x^2)=x'' \<lparr>log = init_log, calls = []\<rparr>)))
       = Inr Power_specific_escalated"
proof -
  let ?s0 = "\<lparr>log = init_log, calls = []\<rparr>"
  let ?r = "''power_rule_missing_coefficient''"
  let ?s1 = "snd (call_record ?r ?s0)"
  have d: "first_detection (PEDAGOGICAL_GRAPH_NODES None) ''d/dx(x^2)=x'' =
     Inr (Some (?r, Power_specific_base, Power_specific_escalated))"
    by (simp add: PEDAGOGICAL_GRAPH_NODES_def hint_power_rule_example)
  have n1: "fst (call_record ?r ?s0) = 1"
    by (simp add: call_record_def record_rule_def init_log_def)
  have n2: "fst (call_record ?r ?s1) = 2"
    by (simp add: call_record_def record_rule_def init_log_def)
  from escalation_threshold[of None "''d/dx(x^2)=x''" ?r Power_specific_base Power_specific_escalated ?s0]
    d n1
  have a1: "fst (analyze_expression None ''d/dx(x^2)=x'' ?s0) = Inr Power_specific_base"
    and s1: "snd (analyze_expression None ''d/dx(x^2)=x'' ?s0) = ?s1" by simp_all
  from escalation_threshold[of None "''d/dx(x^2)=x''" ?r Power_specific_base Power_specific_escalated ?s1]
    d n2
  have a2: "fst (analyze_expression None ''d/dx(x^2)=x'' ?s1) = Inr Power_specific_escalated" by simp
  from d n1 n2 a1 a2 s1 show ?thesis by simp
qed




lemma hint_power_rule_on_shape:
  assumes "normalize_expr expr = power_shape lp c1 N rp c2 M" and "number N" and "number M"
  shows "hint_power_rule expr =
     (if length N \<le> int_max_str_digits \<and> length M \<le> int_max_str_digits
      then Inr (if int_of_digits N - 1 = int_of_digits M \<and> int_of_digits N \<noteq> 1
                then Some (''power_rule_missing_coefficient'',
                           Power_general_base, Power_general_escalated)
                else None)
      else Inl ValueError)"
  using assms
  by (simp add: hint_power_rule_def specific_not_general power_general_on_shape int_py_def Let_def)





text \<open>
  Claim C7: when no detector matches and the library is absent, or its simplification of the
  sides raises, analyze_expression returns the neutral hint, and the log has been reset.
\<close>

theorem checker_failure_swallowed:
  "first_detection (PEDAGOGICAL_GRAPH_NODES sp) expr = Inr None
   \<and> (sp = None \<or> (\<exists>lib. sp = Some lib
          \<and> sides_differ lib (fst (split_eq expr)) (snd (split_eq expr)) = None))
   \<longrightarrow> analyze_expression sp expr s = (Inr Neutral, call_reset s)"
  by (auto simp: analyze_expression_def Let_def split: option.splits prod.splits)

text \<open>
  Claim C7 on \<^verbatim>\<open>2+2=4\<close>, which no detector matches, with a log in the middle of a streak:
  once with the library absent, once with a library whose every call raises.
\<close>

theorem checker_failure_swallowed_witness:
  "first_detection (PEDAGOGICAL_GRAPH_NODES None) ''2+2=4'' = Inr None
   \<and> analyze_expression None ''2+2=4'' \<lparr>log = \<lparr>last_rule = Some ''freshman_dream'', streak = 3\<rparr>, calls = []\<rparr>
       = (Inr Neutral, \<lparr>log = init_log, calls = [Call_reset]\<rparr>)
   \<and> first_detection (PEDAGOGICAL_GRAPH_NODES (Some raising_lib)) ''2+2=4'' = Inr None
   \<and> sides_differ raising_lib (fst (split_eq ''2+2=4'')) (snd (split_eq ''2+2=4'')) = None
   \<and> analyze_expression (Some raising_lib) ''2+2=4''
         \<lparr>log = \<lparr>last_rule = Some ''freshman_dream'', streak = 3\<rparr>, calls = []\<rparr>
       = (Inr Neutral, \<lparr>log = init_log, calls = [Call_reset]\<rparr>)"
proof -
  let ?s = "\<lparr>log = \<lparr>last_rule = Some ''freshman_dream'', streak = 3\<rparr>, calls = []\<rparr>"
  have p: "hint_power_rule ''2+2=4'' = Inr None" by code_simp
  have n: "normalize_expr ''2+2=4'' = ''2+2=4''"
    by (simp add: normalize_expr_def lower_char_def is_upper_def)
  have g: "fullmatch dream_general_re ''2+2=4'' = None"
    by (simp add: dream_general_re_def lits_def)
  have f: "hint_freshman_dream sp ''2+2=4'' = None" if "sp = None \<or> sp = Some raising_lib" for sp
    using that
    by (auto simp: hint_freshman_dream_def n g dream_literal_re_def fullmatch_lits raising_lib_def)
  have d: "first_detection (PEDAGOGICAL_GRAPH_NODES None) ''2+2=4'' = Inr None"
    "first_detection (PEDAGOGICAL_GRAPH_NODES (Some raising_lib)) ''2+2=4'' = Inr None"
    by (simp_all add: PEDAGOGICAL_GRAPH_NODES_def p f)
  have r: "sides_differ raising_lib (fst (split_eq ''2+2=4'')) (snd (split_eq ''2+2=4'')) = None"
    by (simp add: raising_lib_def)
  have c: "call_reset ?s = \<lparr>log = init_log, calls = [Call_reset]\<rparr>"
    by (simp add: call_reset_def reset_def init_log_def)
  from checker_failure_swallowed[of None "''2+2=4''" ?s] d(1) c
  have a1: "analyze_expression None ''2+2=4'' ?s
              = (Inr Neutral, \<lparr>log = init_log, calls = [Call_reset]\<rparr>)"
    by simp
  from checker_failure_swallowed[of "Some raising_lib" "''2+2=4''" ?s] d(2) r c
  have a2: "analyze_expression (Some raising_lib) ''2+2=4'' ?s
              = (Inr Neutral, \<lparr>log = init_log, calls = [Call_reset]\<rparr>)"
    by simp
  from d r a1 a2 show ?thesis by simp
qed

lemma hint_power_rule_general_only:
  assumes "hint_power_rule expr = Inr (Some (r, Power_general_base, e))"
  shows "\<exists>lp c1 N rp c2 M. normalize_expr expr = power_shape lp c1 N rp c2 M \<and> number N \<and> number M
     \<and> int_of_digits N - 1 = int_of_digits M \<and> int_of_digits N \<noteq> 1"
proof -
  from assms obtain gs where gs: "fullmatch power_general_re (normalize_expr expr) = Some gs"
    by (auto simp: hint_power_rule_def Let_def split: if_splits option.splits)
  from power_general_sound[OF gs] obtain lp c1 N rp c2 M where
    sh: "normalize_expr expr = power_shape lp c1 N rp c2 M" "number N" "number M"
    by blast
  from assms hint_power_rule_on_shape[OF sh]
  have "int_of_digits N - 1 = int_of_digits M \<and> int_of_digits N \<noteq> 1"
    by (simp split: if_splits)
  with sh show ?thesis by blast
qed

text \<open>
  Claim C6: the general pattern of the power-rule detector fires only on normalized text of
  the shape \<^verbatim>\<open>d/dx(x^N)=x^M\<close> with \<open>N - 1 = M\<close> and \<open>N \<noteq> 1\<close>; on text of that shape whose
  digit groups the interpreter converts, the detector returns the general detection when
  both hold and nothing otherwise; and \<^verbatim>\<open>d/dx(x^1) = x^0\<close> gives no detection.
\<close>

theorem power_general_guard:
  "(hint_power_rule expr =
      Inr (Some (''power_rule_missing_coefficient'', Power_general_base, Power_general_escalated)) \<longrightarrow>
    (\<exists>lp c1 N rp c2 M. normalize_expr expr = power_shape lp c1 N rp c2 M \<and> number N \<and> number M
       \<and> int_of_digits N - 1 = int_of_digits M \<and> int_of_digits N \<noteq> 1))
   \<and> (normalize_expr expr = power_shape lp c1 N rp c2 M \<and> number N \<and> number M \<longrightarrow>
      hint_power_rule expr =
        (if length N \<le> int_max_str_digits \<and> length M \<le> int_max_str_digits
         then Inr (if int_of_digits N - 1 = int_of_digits M \<and> int_of_digits N \<noteq> 1
                   then Some (''power_rule_missing_coefficient'',
                              Power_general_base, Power_general_escalated)
                   else None)
         else Inl ValueError))
   \<and> hint_power_rule ''d/dx(x^1) = x^0'' = Inr None"
proof (intro conjI impI)
  show "hint_power_rule ''d/dx(x^1) = x^0'' = Inr None" by code_simp
qed (blast dest: hint_power_rule_general_only, simp add: hint_power_rule_on_shape)

text \<open>
  Claim C6 on \<^verbatim>\<open>d/dx(x^3) = x^2\<close>, which has the shape and passes the guard; the text
  \<^verbatim>\<open>d/dx(x^1) = x^0\<close> has the shape too, with \<open>N = 1\<close>.
\<close>

theorem power_general_guard_witness:
  "hint_power_rule ''d/dx(x^3) = x^2'' =
      Inr (Some (''power_rule_missing_coefficient'', Power_general_base, Power_general_escalated))
   \<and> normalize_expr ''d/dx(x^3) = x^2'' = power_shape True True ''3'' True True ''2''
   \<and> number ''3'' \<and> number ''2'' \<and> int_of_digits ''3'' - 1 = int_of_digits ''2''
   \<and> normalize_expr ''d/dx(x^1) = x^0'' = power_shape True True ''1'' True True ''0''
   \<and> number ''1'' \<and> number ''0'' \<and> int_of_digits ''1'' = 1"
proof -
  have n: "number ''3''" "number ''2''" "number ''1''" "number ''0''"
    by (simp_all add: number_def)
  have s3: "normalize_expr ''d/dx(x^3) = x^2'' = power_shape True True ''3'' True True ''2''"
    by (simp add: normalize_expr_def lower_char_def is_upper_def power_shape_def opt_def)
  have s1: "normalize_expr ''d/dx(x^1) = x^0'' = power_shape True True ''1'' True True ''0''"
    by (simp add: normalize_expr_def lower_char_def is_upper_def power_shape_def opt_def)
  have i: "int_of_digits ''3'' - 1 = int_of_digits ''2''" "int_of_digits ''3'' \<noteq> 1"
    "int_of_digits ''1'' = 1"
    by (simp_all add: int_of_digits_def)
  from power_general_guard[of "''d/dx(x^3) = x^2''" True True "''3''" True True "''2''"] s3 n i
  have "hint_power_rule ''d/dx(x^3) = x^2'' =
      Inr (Some (''power_rule_missing_coefficient'', Power_general_base, Power_general_escalated))"
    by (simp add: int_max_str_digits_def)
  with s3 s1 n i show ?thesis by simp
qed

text \<open>
  Claim C10: in the specific pattern of the power-rule detector the two parentheses and the
  caret are optional one by one: each of the eight texts is flagged with the rule id
  \<^verbatim>\<open>power_rule_missing_coefficient\<close> and the hints of the specific pattern, among them
  \<^verbatim>\<open>d/dx(x^2=x\<close>, \<^verbatim>\<open>d/dxx^2)=x\<close> and \<^verbatim>\<open>d/dxx2=x\<close>.
\<close>

theorem specific_pattern_optional_parts:
  "hint_power_rule (specific_shape lp c rp) =
     Inr (Some (''power_rule_missing_coefficient'', Power_specific_base, Power_specific_escalated))
   \<and> specific_shape True True False = ''d/dx(x^2=x''
   \<and> specific_shape False True True = ''d/dxx^2)=x''
   \<and> specific_shape False False False = ''d/dxx2=x''"
proof -
  have "normalize_expr (specific_shape lp c rp) = specific_shape lp c rp"
    by (cases lp; cases c; cases rp)
       (simp_all add: specific_shape_def opt_def normalize_expr_def lower_char_def is_upper_def)
  then have "hint_power_rule (specific_shape lp c rp) =
     Inr (Some (''power_rule_missing_coefficient'', Power_specific_base, Power_specific_escalated))"
    by (simp add: hint_power_rule_def power_specific_on_shape)
  then show ?thesis by (simp add: specific_shape_def opt_def)
qed

lemma hint_freshman_dream_on_shape:
  assumes "normalize_expr expr = dream_shape U V P Q"
    and "lower_ident U" "lower_ident V" "lower_ident P" "lower_ident Q"
  shows "hint_freshman_dream sp expr =
            Some (''freshman_dream'', Dream_general_base, Dream_general_escalated)
         \<longleftrightarrow> normalize_expr expr \<noteq> ''(a+b)^2=a^2+b^2'' \<and> ((U = P \<and> V = Q) \<or> (U = Q \<and> V = P))"
  using assms
  by (auto simp: hint_freshman_dream_def dream_general_on_shape dream_literal_re_def fullmatch_lits
      sort_pair Let_def simp del: sort_key_simps split: option.splits prod.splits)

lemma hint_freshman_dream_general_only:
  assumes "hint_freshman_dream sp expr = Some (r, Dream_general_base, e)"
  shows "\<exists>U V P Q. normalize_expr expr = dream_shape U V P Q \<and> lower_ident U \<and> lower_ident V
     \<and> lower_ident P \<and> lower_ident Q \<and> ((U = P \<and> V = Q) \<or> (U = Q \<and> V = P))"
proof -
  from assms obtain gs where gs: "fullmatch dream_general_re (normalize_expr expr) = Some gs"
    by (auto simp: hint_freshman_dream_def Let_def split: if_splits option.splits prod.splits)
  from dream_general_sound[OF gs] obtain U V P Q where
    sh: "normalize_expr expr = dream_shape U V P Q" "lower_ident U" "lower_ident V"
      "lower_ident P" "lower_ident Q" and g: "gs = [U, V, P, Q]"
    by blast
  from assms gs g have "sort [U, V] = sort [P, Q]"
    by (auto simp: hint_freshman_dream_def Let_def simp del: sort_key_simps
        split: if_splits option.splits prod.splits)
  then have "(U = P \<and> V = Q) \<or> (U = Q \<and> V = P)" by (simp only: sort_pair)
  with sh show ?thesis by blast
qed

lemma hint_freshman_dream_example:
  "hint_freshman_dream sp ''(a+c)^2 = a^2+b^2'' =
     (case sp of
        None \<Rightarrow> None
      | Some lib \<Rightarrow>
          if cross_term lib ''(a+c)^2 '' '' a^2+b^2'' = Some True
          then Some (''freshman_dream'', Dream_symbolic_base, Dream_symbolic_escalated)
          else None)"
proof -
  have n: "normalize_expr ''(a+c)^2 = a^2+b^2'' = ''(a+c)^2=a^2+b^2''"
    by (simp add: normalize_expr_def lower_char_def is_upper_def)
  have l: "fullmatch dream_literal_re ''(a+c)^2=a^2+b^2'' = None"
    by (simp add: dream_literal_re_def fullmatch_lits)
  have g: "fullmatch dream_general_re ''(a+c)^2=a^2+b^2'' = Some [''a'', ''c'', ''a'', ''b'']"
    using dream_general_on_shape[of "''a''" "''c''" "''a''" "''b''"]
    by (simp add: dream_shape_def lower_ident_def)
  have s: "sort [''a'', ''c''] \<noteq> sort [''a'', ''b'']"
    by (simp only: sort_pair) simp
  have e: "split_eq ''(a+c)^2 = a^2+b^2'' = (''(a+c)^2 '', '' a^2+b^2'')"
    by (simp add: split_eq_def)
  show ?thesis
    unfolding hint_freshman_dream_def n Let_def l g using s
    by (simp add: e del: sort_key_simps split: option.splits)
qed

text \<open>
  Claim C5, as stated, fails where the library is installed: on \<^verbatim>\<open>(a+c)^2 = a^2+b^2\<close> no
  textual pattern fires, and the symbolic fallback, which finds the term \<open>2ac\<close>, returns a
  detection with the rule id \<^verbatim>\<open>freshman_dream\<close>.
\<close>

theorem dream_flagged_by_fallback:
  "hint_freshman_dream (Some expanding_lib) ''(a+c)^2 = a^2+b^2'' =
     Some (''freshman_dream'', Dream_symbolic_base, Dream_symbolic_escalated)"
  by (simp add: hint_freshman_dream_example expanding_lib_def)

text \<open>
  Claim C5, amended: the general pattern of the binomial detector fires only on text of the
  shape \<^verbatim>\<open>(U+V)^2=P^2+Q^2\<close> whose pair \<open>U, V\<close> is the pair \<open>P, Q\<close> in either order, and on
  text of that shape it fires exactly then (when the literal pattern has not matched); on
  \<^verbatim>\<open>(a+c)^2 = a^2+b^2\<close> neither textual pattern fires, so the detector returns nothing when
  the library is absent, and with the library what its symbolic fallback decides.
\<close>

theorem dream_general_guard:
  "(hint_freshman_dream sp expr =
      Some (''freshman_dream'', Dream_general_base, Dream_general_escalated) \<longrightarrow>
    (\<exists>U V P Q. normalize_expr expr = dream_shape U V P Q \<and> lower_ident U \<and> lower_ident V
       \<and> lower_ident P \<and> lower_ident Q \<and> ((U = P \<and> V = Q) \<or> (U = Q \<and> V = P))))
   \<and> (normalize_expr expr = dream_shape U V P Q \<and> lower_ident U \<and> lower_ident V
        \<and> lower_ident P \<and> lower_ident Q \<longrightarrow>
      (hint_freshman_dream sp expr =
         Some (''freshman_dream'', Dream_general_base, Dream_general_escalated)
       \<longleftrightarrow> normalize_expr expr \<noteq> ''(a+b)^2=a^2+b^2'' \<and> ((U = P \<and> V = Q) \<or> (U = Q \<and> V = P))))
   \<and> hint_freshman_dream sp ''(a+c)^2 = a^2+b^2'' =
       (case sp of
          None \<Rightarrow> None
        | Some lib \<Rightarrow>
            if cross_term lib ''(a+c)^2 '' '' a^2+b^2'' = Some True
            then Some (''freshman_dream'', Dream_symbolic_base, Dream_symbolic_escalated)
            else None)"
proof (intro conjI impI)
  assume "hint_freshman_dream sp expr =
      Some (''freshman_dream'', Dream_general_base, Dream_general_escalated)"
  then show "\<exists>U V P Q. normalize_expr expr = dream_shape U V P Q \<and> lower_ident U \<and> lower_ident V
       \<and> lower_ident P \<and> lower_ident Q \<and> ((U = P \<and> V = Q) \<or> (U = Q \<and> V = P))"
    by (rule hint_freshman_dream_general_only)
next
  assume "normalize_expr expr = dream_shape U V P Q \<and> lower_ident U \<and> lower_ident V
        \<and> lower_ident P \<and> lower_ident Q"
  then show "hint_freshman_dream sp expr =
         Some (''freshman_dream'', Dream_general_base, Dream_general_escalated)
       \<longleftrightarrow> normalize_expr expr \<noteq> ''(a+b)^2=a^2+b^2'' \<and> ((U = P \<and> V = Q) \<or> (U = Q \<and> V = P))"
    using hint_freshman_dream_on_shape by blast
qed (rule hint_freshman_dream_example)

text \<open>
  Claim C5 on \<^verbatim>\<open>(x + y)^2 = y^2 + x^2\<close>, where the pair on the right is the pair on the left
  in the other order, and on \<^verbatim>\<open>(a+c)^2 = a^2+b^2\<close> with the library absent.
\<close>

theorem dream_general_guard_witness:
  "normalize_expr ''(x + y)^2 = y^2 + x^2'' = dream_shape ''x'' ''y'' ''y'' ''x''
   \<and> lower_ident ''x'' \<and> lower_ident ''y''
   \<and> hint_freshman_dream None ''(x + y)^2 = y^2 + x^2'' =
        Some (''freshman_dream'', Dream_general_base, Dream_general_escalated)
   \<and> normalize_expr ''(a+c)^2 = a^2+b^2'' = dream_shape ''a'' ''c'' ''a'' ''b''
   \<and> lower_ident ''a'' \<and> lower_ident ''b'' \<and> lower_ident ''c''
   \<and> hint_freshman_dream None ''(a+c)^2 = a^2+b^2'' = None"
proof -
  have i: "lower_ident ''x''" "lower_ident ''y''" "lower_ident ''a''" "lower_ident ''b''"
    "lower_ident ''c''"
    by (simp_all add: lower_ident_def)
  have n: "normalize_expr ''(x + y)^2 = y^2 + x^2'' = dream_shape ''x'' ''y'' ''y'' ''x''"
    "normalize_expr ''(a+c)^2 = a^2+b^2'' = dream_shape ''a'' ''c'' ''a'' ''b''"
    by (simp_all add: normalize_expr_def lower_char_def is_upper_def dream_shape_def)
  have l: "normalize_expr ''(x + y)^2 = y^2 + x^2'' \<noteq> ''(a+b)^2=a^2+b^2''"
    by (simp add: n dream_shape_def)
  from dream_general_guard[of None "''(x + y)^2 = y^2 + x^2''" "''x''" "''y''" "''y''" "''x''"] n i l
  have f: "hint_freshman_dream None ''(x + y)^2 = y^2 + x^2'' =
        Some (''freshman_dream'', Dream_general_base, Dream_general_escalated)"
    by simp
  from dream_general_guard[of None "''(a+c)^2 = a^2+b^2''"]
  have z: "hint_freshman_dream None ''(a+c)^2 = a^2+b^2'' = None" by simp
  from i n f z show ?thesis by simp
qed

end
